theory Spec2Isabelle
  imports Complex_Main "HOL-Library.Sublist" "HOL-Library.Multiset"
begin

section \<open>PageRank helpers: a shallow embedding of helpers.py and main.py\<close>

text \<open>
  Conventions of the embedding.
  \<^item> A Python \<open>str\<close> is a \<open>string\<close>; the character with code \<open>n\<close> stands for the code
    point \<open>n\<close>, so the model covers strings over the code points below 256.
  \<^item> Python's unbounded \<open>int\<close> is \<open>int\<close>.
  \<^item> A raised exception is the left summand of a result \<open>exception + 'a\<close>. The
    \<open>assert\<close> statements are modelled as executed (the interpreter's default mode). The
    message of a \<open>ValueError\<close> is not modelled: no path of the code reads it.
  \<^item> A two-dimensional numpy array is the list of its rows, all of one length. The array
    with no row is \<open>[]\<close>, of shape \<open>(0, 0)\<close>. The array that \<open>np.array\<close> builds from Python
    integers also carries the element type that numpy chooses (see \<open>ndarray\<close>).
  \<^item> The interpreter is CPython 3.11 or later with its default settings, numpy is 1.24 or
    later on a platform whose C \<open>long\<close> has 64 bits.
  \<^item> Floating-point entries are modelled by exact real numbers: rounding, overflow and
    the special values are outside the model, except where a division by a zero column sum
    produces a non-finite entry (see \<open>npfloat\<close>).
\<close>

subsection \<open>Exceptions\<close>

datatype exception =
    AssertionError string
  | ValueError
  | IndexError string
  | ZeroDivisionError string
  | OtherException string

subsection \<open>Strings: \<open>str.split\<close>, \<open>str.strip\<close>, \<open>str(int)\<close> and \<open>int(str)\<close>\<close>

abbreviation TAB :: char where "TAB \<equiv> CHR 0x09"
abbreviation NL :: char where "NL \<equiv> CHR 0x0A"

text \<open>\<open>s.split(sep)\<close> for a non-empty separator: the occurrences of \<open>sep\<close> are found from
  left to right, without overlap; the result always has at least one element.\<close>

function split_sep :: "string \<Rightarrow> string \<Rightarrow> string list" where
  "split_sep sep s =
     (if s = [] then [[]]
      else if sep \<noteq> [] \<and> prefix sep s then [] # split_sep sep (drop (length sep) s)
      else (case split_sep sep (tl s) of
              [] \<Rightarrow> [[hd s]]
            | w # ws \<Rightarrow> (hd s # w) # ws))"
  by pat_completeness auto
termination
  by (relation "measure (\<lambda>(sep, s). length s)") (auto simp: neq_Nil_conv)

declare split_sep.simps [simp del]

text \<open>\<open>s.split(sep)\<close> raises \<open>ValueError\<close> on the empty separator.\<close>

definition py_split :: "string \<Rightarrow> string \<Rightarrow> exception + string list" where
  "py_split s sep =
     (if sep = [] then Inl ValueError else Inr (split_sep sep s))"

text \<open>\<open>sep.join(xs)\<close>.\<close>

fun py_join :: "string \<Rightarrow> string list \<Rightarrow> string" where
  "py_join sep [] = []"
| "py_join sep [x] = x"
| "py_join sep (x # y # ys) = x @ sep @ py_join sep (y # ys)"

text \<open>The whitespace of \<open>str.isspace\<close>, among the code points below 256.\<close>

definition is_space :: "char \<Rightarrow> bool" where
  "is_space c = ((of_char c :: nat) \<in> {9, 10, 11, 12, 13, 28, 29, 30, 31, 32, 133, 160})"

definition strip :: "string \<Rightarrow> string" where
  "strip s = rev (dropWhile is_space (rev (dropWhile is_space s)))"

definition is_digit :: "char \<Rightarrow> bool" where
  "is_digit c = (48 \<le> (of_char c :: nat) \<and> (of_char c :: nat) \<le> 57)"

definition digit_val :: "char \<Rightarrow> nat" where
  "digit_val c = of_char c - 48"

definition digit_char :: "nat \<Rightarrow> char" where
  "digit_char d = char_of (48 + d)"

text \<open>\<open>str(n)\<close> for an integer: the decimal digits, with a minus sign when negative. (The
  interpreter refuses to print a number of more than 4300 digits; the numbers printed
  here are lengths of lists and, in the properties, entries of bounded size.)\<close>

function show_nat :: "nat \<Rightarrow> string" where
  "show_nat n = (if n < 10 then [digit_char n] else show_nat (n div 10) @ [digit_char (n mod 10)])"
  by pat_completeness auto
termination
  by (relation "measure (\<lambda>n. n)") auto

declare show_nat.simps [simp del]

definition show_int :: "int \<Rightarrow> string" where
  "show_int i = (if i < 0 then CHR ''-'' # show_nat (nat (- i)) else show_nat (nat i))"

text \<open>The digits of an integer literal after its first digit: digits, each optionally
  preceded by one underscore. The accumulator is the value read so far.\<close>

fun parse_digits :: "nat \<Rightarrow> string \<Rightarrow> nat option" where
  "parse_digits acc [] = Some acc"
| "parse_digits acc [c] = (if is_digit c then Some (10 * acc + digit_val c) else None)"
| "parse_digits acc (c # d # ds) =
     (if is_digit c then parse_digits (10 * acc + digit_val c) (d # ds)
      else if c = CHR ''_'' \<and> is_digit d then parse_digits (10 * acc + digit_val d) ds
      else None)"

text \<open>The whitespace that \<open>int\<close> drops around a literal: the six ASCII whitespace
  characters, and the whitespace code points from 127 on, which \<open>int\<close> first replaces by
  spaces. The separators of codes 28 to 31, which \<open>str.strip\<close> removes, are not among
  them.\<close>

definition is_int_space :: "char \<Rightarrow> bool" where
  "is_int_space c = ((of_char c :: nat) \<in> {9, 10, 11, 12, 13, 32, 133, 160})"

definition int_strip :: "string \<Rightarrow> string" where
  "int_strip s = rev (dropWhile is_int_space (rev (dropWhile is_int_space s)))"

text \<open>The default of \<open>sys.get_int_max_str_digits()\<close>: \<open>int\<close> refuses a literal of more
  digits with \<open>ValueError\<close>.\<close>

definition int_max_str_digits :: nat where
  "int_max_str_digits = 4300"

text \<open>The literal after its sign: a digit followed by digits with single underscores
  between them, of at most \<open>int_max_str_digits\<close> digits.\<close>

definition unsigned_literal :: "string \<Rightarrow> nat option" where
  "unsigned_literal body =
     (case body of
        [] \<Rightarrow> None
      | d # ds \<Rightarrow>
          if \<not> is_digit d then None
          else if int_max_str_digits < length (filter is_digit body) then None
          else parse_digits (digit_val d) ds)"

text \<open>\<open>int(x)\<close> for a string \<open>x\<close>, the default of the parameter \<open>convert_data\<close>: surrounding
  whitespace is dropped, then comes an optional sign, then the literal; anything else
  raises \<open>ValueError\<close>.\<close>

definition py_int :: "string \<Rightarrow> exception + int" where
  "py_int x =
     (case int_strip x of
        [] \<Rightarrow> Inl ValueError
      | c # cs \<Rightarrow>
          (if c = CHR ''-'' then
             (case unsigned_literal cs of None \<Rightarrow> Inl ValueError | Some n \<Rightarrow> Inr (- int n))
           else if c = CHR ''+'' then
             (case unsigned_literal cs of None \<Rightarrow> Inl ValueError | Some n \<Rightarrow> Inr (int n))
           else
             (case unsigned_literal (c # cs) of None \<Rightarrow> Inl ValueError | Some n \<Rightarrow> Inr (int n))))"

subsection \<open>helpers.py: \<open>process_data\<close>\<close>

text \<open>Lines 59-67: the value of one data cell. The empty cell is 0; a \<open>ValueError\<close> of the
  conversion function is caught and leaves 0; any other exception propagates.\<close>

definition cell_value :: "(string \<Rightarrow> exception + int) \<Rightarrow> string \<Rightarrow> exception + int" where
  "cell_value convert_data c =
     (if c = [] then Inr 0
      else (case convert_data c of
              Inr v \<Rightarrow> Inr v
            | Inl ValueError \<Rightarrow> Inr 0
            | Inl e \<Rightarrow> Inl e))"

text \<open>The loop \<open>for c in cells\<close>: the first exception that is not caught ends it.\<close>

fun convert_cells :: "(string \<Rightarrow> exception + int) \<Rightarrow> string list \<Rightarrow> exception + int list" where
  "convert_cells convert_data [] = Inr []"
| "convert_cells convert_data (c # cs) =
     (case cell_value convert_data c of
        Inl e \<Rightarrow> Inl e
      | Inr v \<Rightarrow>
          (case convert_cells convert_data cs of
             Inl e \<Rightarrow> Inl e
           | Inr vs \<Rightarrow> Inr (v # vs)))"

text \<open>Lines 54-57: with labels, \<open>cells.pop(0).strip()\<close> is the label and the remaining cells
  are the data; without, the label is the empty string.\<close>

definition take_label :: "bool \<Rightarrow> string list \<Rightarrow> exception + (string \<times> string list)" where
  "take_label has_labels cells =
     (if has_labels then
        (case cells of
           [] \<Rightarrow> Inl (IndexError ''pop from empty list'')
         | c # cs \<Rightarrow> Inr (strip c, cs))
      else Inr ([], cells))"

text \<open>The body of the loop \<open>for r in rows\<close> (lines 50-67): the row of values and the label.\<close>

definition process_row ::
  "bool \<Rightarrow> (string \<Rightarrow> exception + int) \<Rightarrow> string \<Rightarrow> string \<Rightarrow> exception + (int list \<times> string)" where
  "process_row has_labels convert_data column_separator r =
     (case py_split r column_separator of
        Inl e \<Rightarrow> Inl e
      | Inr cells \<Rightarrow>
          (case take_label has_labels cells of
             Inl e \<Rightarrow> Inl e
           | Inr (label, cells') \<Rightarrow>
               (case convert_cells convert_data cells' of
                  Inl e \<Rightarrow> Inl e
                | Inr row \<Rightarrow> Inr (row, label))))"

text \<open>The loop \<open>for r in rows\<close>: the table and the labels, in the order of the rows.\<close>

fun process_rows ::
  "bool \<Rightarrow> (string \<Rightarrow> exception + int) \<Rightarrow> string \<Rightarrow> string list
     \<Rightarrow> exception + (int list list \<times> string list)" where
  "process_rows has_labels convert_data column_separator [] = Inr ([], [])"
| "process_rows has_labels convert_data column_separator (r # rs) =
     (case process_row has_labels convert_data column_separator r of
        Inl e \<Rightarrow> Inl e
      | Inr (row, label) \<Rightarrow>
          (case process_rows has_labels convert_data column_separator rs of
             Inl e \<Rightarrow> Inl e
           | Inr (table, labels) \<Rightarrow> Inr (row # table, label # labels)))"

text \<open>The message of the assertion of lines 71-72.\<close>

definition table_message :: "nat \<Rightarrow> nat \<Rightarrow> nat \<Rightarrow> string" where
  "table_message sz i n =
     ''The data must be a table of '' @ show_nat sz @ ''x'' @ show_nat sz @
     ''. The line '' @ show_nat i @ '' has only '' @ show_nat n @ '' columns.''"

text \<open>The array that \<open>np.array\<close> builds from the Python integers of a table: its element
  type and its rows. An array of element type \<open>object\<close> holds the Python integers.\<close>

datatype ndarray =
    Int64Array "int list list"
  | UInt64Array "int list list"
  | Float64Array "real list list"
  | ObjectArray "int list list"

definition in_int64 :: "int \<Rightarrow> bool" where
  "in_int64 v = (- (2 ^ 63) \<le> v \<and> v < 2 ^ 63)"

definition in_uint64 :: "int \<Rightarrow> bool" where
  "in_uint64 v = (0 \<le> v \<and> v < 2 ^ 64)"

text \<open>The number of binary digits of a natural number.\<close>

function bit_length :: "nat \<Rightarrow> nat" where
  "bit_length n = (if n = 0 then 0 else Suc (bit_length (n div 2)))"
  by pat_completeness auto
termination
  by (relation "measure (\<lambda>n. n)") auto

declare bit_length.simps [simp del]

text \<open>The conversion of a Python integer below \<open>2 ^ 1024\<close> to a \<open>float64\<close>: the nearest
  number of 53 significant binary digits, the even one of the two when both are equally
  near.\<close>

definition float64_of_nat :: "nat \<Rightarrow> nat" where
  "float64_of_nat n =
     (if n < 2 ^ 53 then n
      else
        (let ulp = 2 ^ (bit_length n - 53); q = n div ulp; r = n mod ulp
         in if 2 * r < ulp \<or> (2 * r = ulp \<and> even q) then q * ulp else (q + 1) * ulp))"

definition float64_of_int :: "int \<Rightarrow> real" where
  "float64_of_int v =
     (if v < 0 then - real (float64_of_nat (nat (- v))) else real (float64_of_nat (nat v)))"

text \<open>\<open>np.array(table)\<close> on a list of rows of Python integers. Rows of different lengths
  raise \<open>ValueError\<close>. An array without entries has the element type \<open>float64\<close>. Otherwise
  the element type is \<open>int64\<close> when every entry fits it, else \<open>uint64\<close> when every entry
  fits that, else \<open>float64\<close> when every entry fits one of the two (the entries are then
  converted), else \<open>object\<close>.\<close>

definition np_array :: "int list list \<Rightarrow> exception + ndarray" where
  "np_array table =
     (if \<not> (\<forall>row \<in> set table. length row = length (hd table)) then Inl ValueError
      else if concat table = [] then Inr (Float64Array (map (map float64_of_int) table))
      else if \<forall>row \<in> set table. \<forall>v \<in> set row. in_int64 v then Inr (Int64Array table)
      else if \<forall>row \<in> set table. \<forall>v \<in> set row. in_uint64 v then Inr (UInt64Array table)
      else if \<forall>row \<in> set table. \<forall>v \<in> set row. in_int64 v \<or> in_uint64 v
        then Inr (Float64Array (map (map float64_of_int) table))
      else Inr (ObjectArray table))"

text \<open>Lines 69-73, with \<open>sz\<close> for the source's \<open>size\<close>: the loop \<open>for i in range(size)\<close>
  stops at the first row shorter than \<open>size\<close>; then the table becomes an array.\<close>

definition finish_table ::
  "int list list \<Rightarrow> string list \<Rightarrow> exception + (ndarray \<times> string list)" where
  "finish_table table labels =
     (let sz = length table in
      case find (\<lambda>i. \<not> sz \<le> length (table ! i)) [0..<sz] of
        Some i \<Rightarrow> Inl (AssertionError (table_message sz i (length (table ! i))))
      | None \<Rightarrow>
          (case np_array table of
             Inl e \<Rightarrow> Inl e
           | Inr matrix \<Rightarrow> Inr (matrix, labels)))"

definition separator_message :: string where
  "separator_message = ''The line separator and the column separator must be different''"

definition process_data ::
  "string \<Rightarrow> bool \<Rightarrow> (string \<Rightarrow> exception + int) \<Rightarrow> string \<Rightarrow> string
     \<Rightarrow> exception + (ndarray \<times> string list)" where
  "process_data data_string has_labels convert_data line_separator column_separator =
     (if \<not> line_separator \<noteq> column_separator then Inl (AssertionError separator_message)
      else
        (case py_split data_string line_separator of
           Inl e \<Rightarrow> Inl e
         | Inr rows \<Rightarrow>
             (case process_rows has_labels convert_data column_separator rows of
                Inl e \<Rightarrow> Inl e
              | Inr (table, labels) \<Rightarrow> finish_table table labels)))"

subsection \<open>Two-dimensional arrays\<close>

text \<open>\<open>m.shape[0]\<close> and \<open>m.shape[1]\<close> of the array with rows \<open>m\<close>.\<close>

definition shape0 :: "'a list list \<Rightarrow> nat" where
  "shape0 m = length m"

definition shape1 :: "'a list list \<Rightarrow> nat" where
  "shape1 m = (case m of [] \<Rightarrow> 0 | row # _ \<Rightarrow> length row)"

text \<open>The rows \<open>m\<close> are an array of shape \<open>(r, c)\<close>.\<close>

definition is_matrix :: "nat \<Rightarrow> nat \<Rightarrow> 'a list list \<Rightarrow> bool" where
  "is_matrix r c m = (length m = r \<and> (\<forall>row \<in> set m. length row = c))"

text \<open>The matrix product of numpy's \<open>a.dot(b)\<close> on two-dimensional arrays: entry \<open>(i, j)\<close> is
  the sum over \<open>k\<close> of \<open>a[i][k] * b[k][j]\<close>; shapes that are not aligned raise
  \<open>ValueError\<close>.\<close>

definition matmul :: "'a::semiring_0 list list \<Rightarrow> 'a list list \<Rightarrow> 'a list list" where
  "matmul a b =
     map (\<lambda>i. map (\<lambda>j. (\<Sum>k\<leftarrow>[0..<shape1 a]. a ! i ! k * b ! k ! j)) [0..<shape1 b])
       [0..<shape0 a]"

definition dot :: "'a::semiring_0 list list \<Rightarrow> 'a list list \<Rightarrow> exception + 'a list list" where
  "dot a b =
     (if shape1 a \<noteq> shape0 b then Inl ValueError
      else Inr (matmul a b))"

text \<open>The identity matrix and the \<open>k\<close>-th power of a square matrix, as mathematics
  defines them: the power is what the specification of \<open>rank\<close> refers to.\<close>

definition identity :: "nat \<Rightarrow> 'a::semiring_1 list list" where
  "identity n = map (\<lambda>i. map (\<lambda>j. if i = j then 1 else 0) [0..<n]) [0..<n]"

fun mat_pow :: "'a::semiring_1 list list \<Rightarrow> nat \<Rightarrow> 'a list list" where
  "mat_pow m 0 = identity (shape0 m)"
| "mat_pow m (Suc k) = matmul m (mat_pow m k)"

subsection \<open>main.py\<close>






definition square_message :: string where
  "square_message = ''Data must be a square matrix.''"

text \<open>\<open>proportion * data + (1 - proportion) * (1 / data.shape[0])\<close>: the quotient
  \<open>1 / data.shape[0]\<close> is a division of Python numbers, which raises on zero.\<close>

definition prepare_data :: "real list list \<Rightarrow> real \<Rightarrow> exception + real list list" where
  "prepare_data data proportion =
     (if \<not> shape0 data = shape1 data then Inl (AssertionError square_message)
      else if shape0 data = 0 then Inl (ZeroDivisionError ''division by zero'')
      else Inr (map (map (\<lambda>x. proportion * x + (1 - proportion) * (1 / real (shape0 data)))) data))"

text \<open>The loop \<open>for i in range(epochs): data = data.dot(data)\<close>, by the number of
  iterations left.\<close>

fun rank_loop :: "nat \<Rightarrow> 'a::semiring_0 list list \<Rightarrow> exception + 'a list list" where
  "rank_loop 0 data = Inr data"
| "rank_loop (Suc k) data =
     (case dot data data of
        Inl e \<Rightarrow> Inl e
      | Inr data' \<Rightarrow> rank_loop k data')"

text \<open>\<open>range(epochs)\<close> has \<open>epochs\<close> elements, none when \<open>epochs\<close> is negative.\<close>

definition rank :: "'a::semiring_0 list list \<Rightarrow> int \<Rightarrow> exception + 'a list list" where
  "rank data epochs =
     (if \<not> shape0 data = shape1 data then Inl (AssertionError square_message)
      else rank_loop (nat epochs) data)"

text \<open>\<open>zip(labels, results)\<close>, as the list of its pairs.\<close>

definition append_labels :: "'b list \<Rightarrow> 'a list \<Rightarrow> ('a \<times> 'b) list" where
  "append_labels results labels = zip labels results"

text \<open>\<open>sorted(xs, key=key, reverse=reverse)\<close>: a stable sort by \<open>key\<close>; with \<open>reverse\<close> the
  list is reversed, sorted and reversed again, so that elements of equal keys keep their
  order.\<close>

definition py_sorted :: "'a list \<Rightarrow> ('a \<Rightarrow> 'k::linorder) \<Rightarrow> bool \<Rightarrow> 'a list" where
  "py_sorted xs key reverse =
     (if reverse then rev (sort_key key (rev xs)) else sort_key key xs)"

definition sort_result :: "'a list \<Rightarrow> bool \<Rightarrow> ('a \<Rightarrow> 'k::linorder) \<Rightarrow> 'a list" where
  "sort_result results reverse key = py_sorted results key reverse"

subsection \<open>Vocabulary of the properties\<close>

text \<open>The serialisation that the round-trip property of the specification speaks of. It is
  not a function of the repository: each row is its label and the decimal numerals of its
  entries joined by the column separator, and the rows are joined by the line separator.\<close>

definition spec_serialize_row :: "string \<Rightarrow> string \<Rightarrow> int list \<Rightarrow> string" where
  "spec_serialize_row column_separator label row =
     py_join column_separator (label # map show_int row)"

definition spec_serialize :: "int list list \<Rightarrow> string list \<Rightarrow> string \<Rightarrow> string \<Rightarrow> string" where
  "spec_serialize m labels line_separator column_separator =
     py_join line_separator (map2 (spec_serialize_row column_separator) labels m)"

text \<open>The separator occurs in a string, as a run of consecutive characters.\<close>

fun occurs_in :: "string \<Rightarrow> string \<Rightarrow> bool" where
  "occurs_in sep [] = (sep = [])"
| "occurs_in sep (c # s) = (prefix sep (c # s) \<or> occurs_in sep s)"

text \<open>The pieces \<open>xs\<close>, joined by the separator, hold the separator only where the join put
  it: it occurs in no piece but the last extended by the separator without its last
  character, and it does not occur in the last piece.\<close>

definition splits_back :: "string \<Rightarrow> string list \<Rightarrow> bool" where
  "splits_back sep xs =
     (xs \<noteq> [] \<and> (\<forall>x \<in> set (butlast xs). \<not> occurs_in sep (x @ butlast sep)) \<and>
      \<not> occurs_in sep (last xs))"

text \<open>The numbers that an array holds.\<close>

fun array_entries :: "ndarray \<Rightarrow> real list list" where
  "array_entries (Int64Array rows) = map (map real_of_int) rows"
| "array_entries (UInt64Array rows) = map (map real_of_int) rows"
| "array_entries (Float64Array rows) = rows"
| "array_entries (ObjectArray rows) = map (map real_of_int) rows"

text \<open>The data cells and the label of a row that was split into \<open>cells\<close>, and the entry that
  a data cell leaves in the table when its conversion raises nothing or \<open>ValueError\<close>.\<close>

definition data_cells :: "bool \<Rightarrow> string list \<Rightarrow> string list" where
  "data_cells has_labels cells = (if has_labels then tl cells else cells)"

definition row_label :: "bool \<Rightarrow> string list \<Rightarrow> string" where
  "row_label has_labels cells = (if has_labels then strip (hd cells) else [])"

definition row_cells :: "bool \<Rightarrow> string \<Rightarrow> string \<Rightarrow> string list" where
  "row_cells has_labels column_separator r =
     data_cells has_labels (split_sep column_separator r)"

definition cell_or_zero :: "(string \<Rightarrow> exception + int) \<Rightarrow> string \<Rightarrow> int" where
  "cell_or_zero convert_data c =
     (if c = [] then 0 else (case convert_data c of Inr v \<Rightarrow> v | Inl e \<Rightarrow> 0))"

text \<open>The conversion of the cell raises an exception that \<open>process_data\<close> does not catch:
  the cell is not empty and the exception is not a \<open>ValueError\<close>.\<close>

definition uncaught :: "(string \<Rightarrow> exception + int) \<Rightarrow> string \<Rightarrow> bool" where
  "uncaught convert_data c =
     (c \<noteq> [] \<and> (case convert_data c of Inr v \<Rightarrow> False | Inl e \<Rightarrow> e \<noteq> ValueError))"

text \<open>The number that a string of decimal digits denotes, from the left, after \<open>acc\<close>.\<close>

definition digits_value :: "nat \<Rightarrow> string \<Rightarrow> nat" where
  "digits_value acc ds = foldl (\<lambda>a d. 10 * a + digit_val d) acc ds"

text \<open>A conversion function that a caller may pass, \<open>lambda x: {'a': 1}[x]\<close>: it raises
  \<open>KeyError\<close>, which is not a \<open>ValueError\<close>, on every cell but \<open>'a'\<close>.\<close>

definition dict_convert :: "string \<Rightarrow> exception + int" where
  "dict_convert x = (if x = ''a'' then Inr 1 else Inl (OtherException ''KeyError''))"

section \<open>Properties\<close>

subsection \<open>Shapes\<close>

lemma shape_square: "is_matrix n n m \<Longrightarrow> shape0 m = n \<and> shape1 m = n"
  by (cases m) (auto simp: is_matrix_def shape1_def shape0_def)


subsection \<open>\<open>rank\<close> with no epoch\<close>

text \<open>C10: for every square matrix \<open>m\<close>, \<open>rank(m, 0)\<close> returns \<open>m\<close> unchanged: with zero epochs
  the loop does not run.\<close>

theorem rank_zero_epochs: "is_matrix n n m \<Longrightarrow> rank m 0 = Inr m"
  by (simp add: rank_def shape_square)

theorem rank_zero_epochs_witness:
  "is_matrix 2 2 [[1, 2], [3, 4 :: int]] \<and> rank [[1, 2], [3, 4 :: int]] 0 = Inr [[1, 2], [3, 4]]"
  using rank_zero_epochs [of 2 "[[1, 2], [3, 4 :: int]]"] by (simp add: is_matrix_def)

subsection \<open>\<open>append_labels\<close>\<close>

text \<open>C8: \<open>append_labels\<close> pairs scores and labels by position, label first; when the lengths
  differ it raises nothing and the result has the length of the shorter sequence: it is the
  pairing of the two sequences cut to that length.\<close>

theorem append_labels_truncates:
  "length (append_labels results labels) = min (length results) (length labels) \<and>
   append_labels results labels =
     append_labels (take (min (length results) (length labels)) results)
       (take (min (length results) (length labels)) labels) \<and>
   (\<forall>i < min (length results) (length labels).
      append_labels results labels ! i = (labels ! i, results ! i))"
  unfolding append_labels_def
  by (simp add: take_zip [symmetric])

theorem append_labels_truncates_witness:
  "append_labels [5, 7, 9 :: int] [''a'', ''b''] = [(''a'', 5), (''b'', 7)] \<and>
   length (append_labels [5, 7, 9 :: int] [''a'', ''b'']) = 2"
  using append_labels_truncates [of "[5, 7, 9 :: int]" "[''a'', ''b'']"]
  by (simp add: append_labels_def)

subsection \<open>\<open>sort_result\<close>\<close>

text \<open>C9: with the default arguments (\<open>reverse=True\<close>, the second component as key)
  \<open>sort_result\<close> returns the pairs in non-increasing order of score; the result is a
  rearrangement of the input in which pairs of equal score keep their order (the sort is
  stable); on pairwise distinct scores, \<open>reverse=False\<close> gives the reversed list.\<close>

theorem sort_result_order:
  fixes results :: "('a \<times> 'k::linorder) list"
  shows "sorted (rev (map snd (sort_result results True snd))) \<and>
   mset (sort_result results True snd) = mset results \<and>
   (\<forall>k. filter (\<lambda>p. snd p = k) (sort_result results True snd) = filter (\<lambda>p. snd p = k) results) \<and>
   (distinct (map snd results) \<longrightarrow>
      sort_result results False snd = rev (sort_result results True snd))"
proof -
  have a: "sorted (rev (map snd (sort_result results True snd)))"
    by (simp add: sort_result_def py_sorted_def rev_map [symmetric])
  have b: "mset (sort_result results True snd) = mset results"
    by (simp add: sort_result_def py_sorted_def)
  have c: "filter (\<lambda>p. snd p = k) (sort_result results True snd) = filter (\<lambda>p. snd p = k) results"
    for k
    by (simp add: sort_result_def py_sorted_def rev_filter [symmetric] sort_key_stable)
  have d: "sort_result results False snd = rev (sort_result results True snd)"
    if "distinct (map snd results)"
  proof -
    have i: "inj_on snd (set (rev results))"
      using that by (simp add: distinct_map)
    have m: "mset (rev results) = mset (sort_key snd results)"
      by simp
    have s: "sorted (map snd (sort_key snd results))"
      by simp
    have "sort_key snd (rev results) = sort_key snd results"
      by (rule sort_key_inj_key_eq [OF m i s])
    then show ?thesis
      by (simp add: sort_result_def py_sorted_def)
  qed
  from a b c d show ?thesis by blast
qed

theorem sort_result_order_witness:
  "sort_result [(''a'', 1 :: int), (''b'', 3), (''c'', 2)] True snd = [(''b'', 3), (''c'', 2), (''a'', 1)] \<and>
   distinct (map snd [(''a'', 1 :: int), (''b'', 3), (''c'', 2)]) \<and>
   sort_result [(''a'', 1 :: int), (''b'', 3), (''c'', 2)] False snd =
     rev (sort_result [(''a'', 1 :: int), (''b'', 3), (''c'', 2)] True snd)"
  using sort_result_order [of "[(''a'', 1 :: int), (''b'', 3), (''c'', 2)]"]
  by (simp add: sort_result_def py_sorted_def)

subsection \<open>\<open>normalise\<close>\<close>





subsection \<open>\<open>prepare_data\<close>\<close>

text \<open>C5, amended: for every square matrix \<open>m\<close> of dimension \<open>n \<ge> 1\<close>, \<open>prepare_data(m, 1)\<close> is
  \<open>m\<close> and every entry of \<open>prepare_data(m, 0)\<close> is \<open>1 / n\<close>.\<close>

theorem prepare_data_bounds:
  assumes "is_matrix n n m" and "0 < n"
  shows "prepare_data m 1 = Inr m \<and>
         prepare_data m 0 = Inr (replicate n (replicate n (1 / real n)))"
proof -
  have sh: "shape0 m = n" "shape1 m = n"
    using assms(1) by (simp_all add: shape_square)
  have len: "length m = n" "\<And>row. row \<in> set m \<Longrightarrow> length row = n"
    using assms(1) by (auto simp: is_matrix_def)
  have one: "prepare_data m 1 = Inr m"
    using assms(2) by (simp add: prepare_data_def sh)
  have "map (map (\<lambda>x. 1 / real n)) m = map (\<lambda>row. replicate n (1 / real n)) m"
    using len(2) by (intro map_cong refl) (simp add: map_replicate_const)
  also have "\<dots> = replicate n (replicate n (1 / real n))"
    using len(1) by (simp add: map_replicate_const)
  finally have "prepare_data m 0 = Inr (replicate n (replicate n (1 / real n)))"
    using assms(2) by (simp add: prepare_data_def sh)
  with one show ?thesis by simp
qed

theorem prepare_data_bounds_witness:
  "is_matrix 2 2 [[1, 0], [0, 1 :: real]] \<and> (0::nat) < 2 \<and>
   prepare_data [[1, 0], [0, 1]] 1 = Inr [[1, 0], [0, 1]] \<and>
   prepare_data [[1, 0], [0, 1]] 0 = Inr [[1 / 2, 1 / 2], [1 / 2, 1 / 2]]"
  using prepare_data_bounds [of 2 "[[1, 0], [0, 1 :: real]]"]
  by (simp add: is_matrix_def numeral_2_eq_2)

text \<open>C5 as stated fails on the square matrix of dimension 0: \<open>1 / data.shape[0]\<close> raises
  \<open>ZeroDivisionError\<close>.\<close>

theorem prepare_data_empty_counterexample:
  "is_matrix 0 0 ([] :: real list list) \<and>
   prepare_data [] 1 = Inl (ZeroDivisionError ''division by zero'') \<and>
   prepare_data [] 1 \<noteq> Inr []"
  by (simp add: is_matrix_def prepare_data_def shape0_def shape1_def)

subsection \<open>\<open>rank\<close>: repeated squaring and powers\<close>

lemma matmul_nth:
  assumes "is_matrix n n a" and "is_matrix n n b" and "i < n" and "j < n"
  shows "matmul a b ! i ! j = (\<Sum>k = 0..<n. a ! i ! k * b ! k ! j)"
  using assms by (simp add: matmul_def shape_square interv_sum_list_conv_sum_set_nat)

lemma matmul_is_matrix:
  assumes "is_matrix n n a" and "is_matrix n n b"
  shows "is_matrix n n (matmul a b)"
  using assms by (auto simp: matmul_def shape_square is_matrix_def)

lemma matrix_eqI:
  assumes "is_matrix n n a" and "is_matrix n n b"
    and "\<And>i j. i < n \<Longrightarrow> j < n \<Longrightarrow> a ! i ! j = b ! i ! j"
  shows "a = b"
proof (rule nth_equalityI)
  show "length a = length b"
    using assms(1,2) by (simp add: is_matrix_def)
next
  fix i assume i: "i < length a"
  then have in_n: "i < n" using assms(1) by (simp add: is_matrix_def)
  have la: "length (a ! i) = n" using assms(1) i by (simp add: is_matrix_def)
  have lb: "length (b ! i) = n" using assms(1,2) i by (simp add: is_matrix_def)
  show "a ! i = b ! i"
    using la lb in_n assms(3) by (intro nth_equalityI) simp_all
qed

lemma matmul_assoc:
  fixes a :: "'a::semiring_0 list list"
  assumes a: "is_matrix n n a" and b: "is_matrix n n b" and c: "is_matrix n n c"
  shows "matmul (matmul a b) c = matmul a (matmul b c)"
proof (rule matrix_eqI [of n])
  show "is_matrix n n (matmul (matmul a b) c)"
    by (intro matmul_is_matrix a b c)
  show "is_matrix n n (matmul a (matmul b c))"
    by (intro matmul_is_matrix a b c)
next
  fix i j assume ij: "i < n" "j < n"
  have "matmul (matmul a b) c ! i ! j =
        (\<Sum>k = 0..<n. (\<Sum>l = 0..<n. a ! i ! l * b ! l ! k) * c ! k ! j)"
    using ij by (simp add: matmul_nth [OF matmul_is_matrix [OF a b] c] matmul_nth [OF a b])
  also have "\<dots> = (\<Sum>k = 0..<n. \<Sum>l = 0..<n. a ! i ! l * (b ! l ! k * c ! k ! j))"
    by (simp add: sum_distrib_right mult.assoc)
  also have "\<dots> = (\<Sum>l = 0..<n. \<Sum>k = 0..<n. a ! i ! l * (b ! l ! k * c ! k ! j))"
    by (rule sum.swap)
  also have "\<dots> = (\<Sum>l = 0..<n. a ! i ! l * (\<Sum>k = 0..<n. b ! l ! k * c ! k ! j))"
    by (simp add: sum_distrib_left)
  also have "\<dots> = matmul a (matmul b c) ! i ! j"
    using ij by (simp add: matmul_nth [OF a matmul_is_matrix [OF b c]] matmul_nth [OF b c])
  finally show "matmul (matmul a b) c ! i ! j = matmul a (matmul b c) ! i ! j" .
qed

lemma identity_is_matrix: "is_matrix n n (identity n)"
  by (simp add: identity_def is_matrix_def)

lemma identity_nth: "i < n \<Longrightarrow> j < n \<Longrightarrow> identity n ! i ! j = (if i = j then 1 else 0)"
  by (simp add: identity_def)

lemma matmul_identity_right:
  fixes a :: "'a::semiring_1 list list"
  assumes a: "is_matrix n n a"
  shows "matmul a (identity n) = a"
proof (rule matrix_eqI [of n])
  fix i j assume ij: "i < n" "j < n"
  have "matmul a (identity n) ! i ! j = (\<Sum>k = 0..<n. a ! i ! k * (if k = j then 1 else 0))"
    using ij by (simp add: matmul_nth [OF a identity_is_matrix] identity_nth)
  also have "\<dots> = (\<Sum>k = 0..<n. if k = j then a ! i ! k else 0)"
    by (intro sum.cong refl) simp
  also have "\<dots> = a ! i ! j"
    using ij by simp
  finally show "matmul a (identity n) ! i ! j = a ! i ! j" .
qed (intro matmul_is_matrix a identity_is_matrix, rule a)

lemma matmul_identity_left:
  fixes a :: "'a::semiring_1 list list"
  assumes a: "is_matrix n n a"
  shows "matmul (identity n) a = a"
proof (rule matrix_eqI [of n])
  fix i j assume ij: "i < n" "j < n"
  have "matmul (identity n) a ! i ! j = (\<Sum>k = 0..<n. (if i = k then 1 else 0) * a ! k ! j)"
    using ij by (simp add: matmul_nth [OF identity_is_matrix a] identity_nth)
  also have "\<dots> = (\<Sum>k = 0..<n. if k = i then a ! k ! j else 0)"
    by (intro sum.cong refl) simp
  also have "\<dots> = a ! i ! j"
    using ij by simp
  finally show "matmul (identity n) a ! i ! j = a ! i ! j" .
qed (intro matmul_is_matrix a identity_is_matrix, rule a)

lemma mat_pow_is_matrix:
  assumes "is_matrix n n m"
  shows "is_matrix n n (mat_pow m k)"
  using assms by (induction k) (simp_all add: shape_square identity_is_matrix matmul_is_matrix)

lemma mat_pow_add:
  fixes m :: "'a::semiring_1 list list"
  assumes m: "is_matrix n n m"
  shows "mat_pow m (j + k) = matmul (mat_pow m j) (mat_pow m k)"
proof (induction j)
  case 0
  show ?case
    by (simp add: shape_square [OF m] matmul_identity_left [OF mat_pow_is_matrix [OF m]])
next
  case (Suc j)
  then show ?case
    by (simp add: matmul_assoc [OF m mat_pow_is_matrix [OF m] mat_pow_is_matrix [OF m]])
qed

lemma mat_pow_one:
  fixes m :: "'a::semiring_1 list list"
  assumes m: "is_matrix n n m"
  shows "mat_pow m (Suc 0) = m"
  by (simp add: shape_square [OF m] matmul_identity_right [OF m])

lemma mat_pow_square:
  fixes m :: "'a::semiring_1 list list"
  assumes m: "is_matrix n n m"
  shows "mat_pow (matmul m m) k = mat_pow m (2 * k)"
proof (induction k)
  case 0
  show ?case
    by (simp add: shape_square [OF m] shape_square [OF matmul_is_matrix [OF m m]])
next
  case (Suc k)
  have "mat_pow (matmul m m) (Suc k) = matmul (matmul m m) (mat_pow m (2 * k))"
    using Suc by simp
  also have "\<dots> = matmul m (matmul m (mat_pow m (2 * k)))"
    by (rule matmul_assoc [OF m m mat_pow_is_matrix [OF m]])
  finally show ?case by simp
qed

lemma rank_loop_power:
  fixes m :: "'a::semiring_1 list list"
  assumes "is_matrix n n m"
  shows "rank_loop e m = Inr (mat_pow m (2 ^ e))"
  using assms
proof (induction e arbitrary: m)
  case 0
  then show ?case by (simp add: shape_square matmul_identity_right)
next
  case (Suc e)
  have "rank_loop (Suc e) m = rank_loop e (matmul m m)"
    by (simp add: dot_def shape_square [OF Suc.prems])
  also have "\<dots> = Inr (mat_pow (matmul m m) (2 ^ e))"
    by (rule Suc.IH [OF matmul_is_matrix [OF Suc.prems Suc.prems]])
  finally show ?case
    by (simp add: mat_pow_square [OF Suc.prems])
qed

lemma rank_loop_funpow:
  fixes m :: "'a::semiring_0 list list"
  assumes "is_matrix n n m"
  shows "rank_loop e m = Inr (((\<lambda>d. matmul d d) ^^ e) m)"
  using assms
proof (induction e arbitrary: m)
  case 0
  show ?case by simp
next
  case (Suc e)
  have "rank_loop (Suc e) m = rank_loop e (matmul m m)"
    by (simp add: dot_def shape_square [OF Suc.prems])
  also have "\<dots> = Inr (((\<lambda>d. matmul d d) ^^ e) (matmul m m))"
    by (rule Suc.IH [OF matmul_is_matrix [OF Suc.prems Suc.prems]])
  finally have r: "rank_loop (Suc e) m = Inr (((\<lambda>d. matmul d d) ^^ e) (matmul m m))" .
  show ?case
    unfolding funpow_Suc_right o_apply by (rule r)
qed

text \<open>C2: for every square matrix \<open>m\<close> and every natural number \<open>epochs\<close>, \<open>rank(m, epochs)\<close>
  is \<open>m\<close> raised to the power \<open>2 ^ epochs\<close>, which is the result of replacing \<open>m\<close> by its
  product with itself \<open>epochs\<close> times. Entries range over any semiring, with exact
  arithmetic.\<close>

theorem rank_is_power:
  fixes m :: "'a::semiring_1 list list"
  assumes "is_matrix n n m"
  shows "rank m (int epochs) = Inr (mat_pow m (2 ^ epochs)) \<and>
         rank m (int epochs) = Inr (((\<lambda>d. matmul d d) ^^ epochs) m)"
  using assms
  by (simp add: rank_def shape_square rank_loop_power [symmetric] rank_loop_funpow [symmetric])

theorem rank_is_power_witness:
  "is_matrix 2 2 [[1, 1], [0, 1 :: int]] \<and>
   rank [[1, 1], [0, 1 :: int]] 2 = Inr [[1, 4], [0, 1]] \<and>
   mat_pow [[1, 1], [0, 1 :: int]] 4 = [[1, 4], [0, 1]]"
proof -
  have m: "is_matrix 2 2 [[1, 1], [0, 1 :: int]]"
    by (simp add: is_matrix_def)
  have p: "mat_pow [[1, 1], [0, 1 :: int]] 4 = [[1, 4], [0, 1]]"
    by code_simp
  show ?thesis
    using rank_is_power [OF m, of 2] m p by simp
qed

subsection \<open>\<open>process_data\<close>: the check of the separators\<close>

lemma convert_cells_error:
  "convert_cells cv cells = Inl e \<Longrightarrow> \<exists>c \<in> set cells. cv c = Inl e"
  by (induction cells) (auto simp: cell_value_def split: sum.splits if_splits exception.splits)

lemma process_row_error:
  assumes "process_row hl cv cs r = Inl e"
  shows "e = ValueError \<or> (\<exists>msg. e = IndexError msg) \<or> (\<exists>c. cv c = Inl e)"
  using assms
  by (auto simp: process_row_def py_split_def take_label_def
      split: sum.splits if_splits list.splits prod.splits dest: convert_cells_error)

lemma process_rows_error:
  "process_rows hl cv cs rows = Inl e \<Longrightarrow>
   e = ValueError \<or> (\<exists>msg. e = IndexError msg) \<or> (\<exists>c. cv c = Inl e)"
proof (induction rows)
  case Nil
  then show ?case by simp
next
  case (Cons r rows)
  then show ?case
    by (auto split: sum.splits prod.splits dest: process_row_error)
qed

lemma table_message_neq: "table_message sz i n \<noteq> separator_message"
  by (simp add: table_message_def separator_message_def)

lemma finish_table_error:
  "finish_table table labels = Inl e \<Longrightarrow>
   e = ValueError \<or> (\<exists>sz i n. e = AssertionError (table_message sz i n))"
  by (auto simp: finish_table_def np_array_def Let_def split: option.splits if_splits)

text \<open>C6: \<open>process_data\<close> called with equal line and column separators fails with the
  assertion on the separators; with distinct separators this failure does not occur
  (whatever else happens), provided the conversion function that the caller supplies does
  not itself raise this very exception.\<close>

theorem separators_checked:
  "process_data s hl cv sep sep = Inl (AssertionError separator_message) \<and>
   (ls \<noteq> cs \<longrightarrow> (\<forall>c. cv c \<noteq> Inl (AssertionError separator_message)) \<longrightarrow>
      process_data s hl cv ls cs \<noteq> Inl (AssertionError separator_message))"
proof -
  have "process_data s hl cv ls cs \<noteq> Inl (AssertionError separator_message)"
    if neq: "ls \<noteq> cs" and cv: "\<forall>c. cv c \<noteq> Inl (AssertionError separator_message)"
  proof
    assume a: "process_data s hl cv ls cs = Inl (AssertionError separator_message)"
    show False
    proof (cases "py_split s ls")
      case (Inl e)
      with a neq show False
        by (auto simp: process_data_def py_split_def split: if_splits)
    next
      case (Inr rows)
      show False
      proof (cases "process_rows hl cv cs rows")
        case (Inl e)
        with a neq Inr have "e = AssertionError separator_message"
          by (simp add: process_data_def)
        with process_rows_error [OF Inl] cv show False by auto
      next
        case r: (Inr tl)
        obtain table labels where "tl = (table, labels)" by (cases tl)
        with a neq Inr r have "finish_table table labels = Inl (AssertionError separator_message)"
          by (simp add: process_data_def)
        from finish_table_error [OF this] show False
          by (auto simp: table_message_neq [symmetric])
      qed
    qed
  qed
  then show ?thesis by (simp add: process_data_def)
qed

lemma py_int_no_assertion: "py_int c \<noteq> Inl (AssertionError msg)"
  by (simp add: py_int_def split: list.splits option.splits)

theorem separators_checked_witness:
  "process_data ''A,1'' True py_int '','' '','' = Inl (AssertionError separator_message) \<and>
   '';'' \<noteq> '','' \<and>
   process_data ''A,1'' True py_int '';'' '','' = Inr (Int64Array [[1]], [''A''])"
proof -
  have "process_data ''A,1'' True py_int '';'' '','' = Inr (Int64Array [[1]], [''A''])"
    by code_simp
  then show ?thesis
    using separators_checked [of "''A,1''" True py_int "'',''" "'';''" "'',''"]
    by (simp add: py_int_no_assertion)
qed

subsection \<open>\<open>process_data\<close>: cells that are empty or fail to convert\<close>

lemma split_sep_not_Nil: "split_sep sep s \<noteq> []"
  by (subst split_sep.simps) (simp split: list.splits)

lemma take_label_split:
  "take_label hl (split_sep cs r) = Inr (row_label hl (split_sep cs r), row_cells hl cs r)"
  using split_sep_not_Nil [of cs r]
  by (cases "split_sep cs r") (simp_all add: take_label_def row_label_def row_cells_def data_cells_def)

lemma convert_cells_length:
  "convert_cells cv cells = Inr row \<Longrightarrow> length row = length cells"
  by (induction cells arbitrary: row) (auto split: sum.splits)

lemma convert_cells_nth:
  "convert_cells cv cells = Inr row \<Longrightarrow> j < length cells \<Longrightarrow> cell_value cv (cells ! j) = Inr (row ! j)"
proof (induction cells arbitrary: row j)
  case Nil
  then show ?case by simp
next
  case (Cons c cells)
  then show ?case
    by (cases j) (auto split: sum.splits)
qed

lemma cell_value_zero:
  assumes "cell_value cv c = Inr v" and "c = [] \<or> cv c = Inl ValueError"
  shows "v = 0"
  using assms by (auto simp: cell_value_def split: if_splits)

lemma cell_value_caught:
  assumes "\<not> uncaught cv c"
  shows "cell_value cv c = Inr (cell_or_zero cv c)"
  using assms
  by (auto simp: uncaught_def cell_value_def cell_or_zero_def split: sum.splits exception.splits)

lemma cell_value_uncaught:
  assumes "uncaught cv c"
  shows "\<exists>e. cv c = Inl e \<and> e \<noteq> ValueError \<and> cell_value cv c = Inl e"
  using assms
  by (auto simp: uncaught_def cell_value_def split: sum.splits exception.splits)

lemma convert_cells_total:
  assumes "\<forall>c \<in> set cells. \<not> uncaught cv c"
  shows "convert_cells cv cells = Inr (map (cell_or_zero cv) cells)"
  using assms by (induction cells) (simp_all add: cell_value_caught)

lemma convert_cells_uncaught:
  assumes "find (uncaught cv) cells = Some c"
  shows "\<exists>e. cv c = Inl e \<and> e \<noteq> ValueError \<and> convert_cells cv cells = Inl e"
  using assms
proof (induction cells)
  case Nil
  then show ?case by simp
next
  case (Cons a cells)
  show ?case
  proof (cases "uncaught cv a")
    case True
    with Cons.prems have "c = a" by simp
    with cell_value_uncaught [OF True] show ?thesis by auto
  next
    case False
    with Cons have "\<exists>e. cv c = Inl e \<and> e \<noteq> ValueError \<and> convert_cells cv cells = Inl e"
      by simp
    with cell_value_caught [OF False] show ?thesis by auto
  qed
qed

lemma process_row_result:
  assumes "process_row hl cv cs r = Inr (row, label)"
  shows "convert_cells cv (row_cells hl cs r) = Inr row"
  using assms
  by (auto simp: process_row_def py_split_def take_label_split split: if_splits sum.splits)

lemma process_row_total:
  assumes "cs \<noteq> []" and "\<forall>c \<in> set (row_cells hl cs r). \<not> uncaught cv c"
  shows "process_row hl cv cs r =
         Inr (map (cell_or_zero cv) (row_cells hl cs r), row_label hl (split_sep cs r))"
  using assms(1) convert_cells_total [OF assms(2)]
  by (simp add: process_row_def py_split_def take_label_split)

lemma process_row_uncaught:
  assumes "cs \<noteq> []" and "find (uncaught cv) (row_cells hl cs r) = Some c"
  shows "\<exists>e. cv c = Inl e \<and> e \<noteq> ValueError \<and> process_row hl cv cs r = Inl e"
  using assms(1) convert_cells_uncaught [OF assms(2)]
  by (auto simp: process_row_def py_split_def take_label_split)

lemma process_rows_result:
  "process_rows hl cv cs rows = Inr (table, labels) \<Longrightarrow>
   length table = length rows \<and> length labels = length rows \<and>
   (\<forall>i < length rows. process_row hl cv cs (rows ! i) = Inr (table ! i, labels ! i))"
proof (induction rows arbitrary: table labels)
  case Nil
  then show ?case by simp
next
  case (Cons r rows)
  then show ?case
    by (auto split: sum.splits prod.splits simp: nth_Cons split: nat.splits)
qed

lemma process_rows_total:
  assumes "cs \<noteq> []"
    and "\<forall>r \<in> set rows. \<forall>c \<in> set (row_cells hl cs r). \<not> uncaught cv c"
  shows "process_rows hl cv cs rows =
         Inr (map (\<lambda>r. map (cell_or_zero cv) (row_cells hl cs r)) rows,
              map (\<lambda>r. row_label hl (split_sep cs r)) rows)"
  using assms(2)
proof (induction rows)
  case Nil
  show ?case by simp
next
  case (Cons r rows)
  then show ?case
    by (simp add: process_row_total [OF assms(1)])
qed

lemma find_append_cases:
  "find P (xs @ ys) = (case find P xs of Some x \<Rightarrow> Some x | None \<Rightarrow> find P ys)"
  by (induction xs) simp_all

lemma process_rows_uncaught:
  assumes "cs \<noteq> []"
  shows "find (uncaught cv) (concat (map (row_cells hl cs) rows)) = Some c \<Longrightarrow>
         \<exists>e. cv c = Inl e \<and> e \<noteq> ValueError \<and> process_rows hl cv cs rows = Inl e"
proof (induction rows)
  case Nil
  then show ?case by simp
next
  case (Cons r rows)
  show ?case
  proof (cases "find (uncaught cv) (row_cells hl cs r)")
    case (Some a)
    with Cons.prems have "a = c" by (simp add: find_append_cases)
    with process_row_uncaught [OF assms Some] show ?thesis by auto
  next
    case None
    then have "\<forall>c \<in> set (row_cells hl cs r). \<not> uncaught cv c"
      by (simp add: find_None_iff)
    from process_row_total [OF assms this] Cons None show ?thesis
      by (auto simp: find_append_cases)
  qed
qed

lemma float64_of_int_zero: "float64_of_int 0 = 0"
  by (simp add: float64_of_int_def float64_of_nat_def)

lemma np_array_zero_entry:
  assumes "np_array table = Inr a" and "i < length table" and "j < length (table ! i)"
    and "table ! i ! j = 0"
  shows "array_entries a ! i ! j = 0"
  using assms
  by (auto simp: np_array_def float64_of_int_zero split: if_splits)

lemma finish_table_result:
  assumes "finish_table table labels = Inr (matrix, labels')"
  shows "np_array table = Inr matrix \<and> labels' = labels"
  using assms
  by (auto simp: finish_table_def Let_def split: option.splits sum.splits)

lemma process_data_result:
  assumes "process_data s hl cv ls cs = Inr (matrix, labels)"
  shows "\<exists>table. process_rows hl cv cs (split_sep ls s) = Inr (table, labels) \<and>
           np_array table = Inr matrix"
proof -
  from assms have neq: "ls \<noteq> cs" and ls: "ls \<noteq> []"
    by (auto simp: process_data_def py_split_def split: if_splits)
  then obtain table labels' where
    rows: "process_rows hl cv cs (split_sep ls s) = Inr (table, labels')"
    and fin: "finish_table table labels' = Inr (matrix, labels)"
    using assms
    by (auto simp: process_data_def py_split_def split: sum.splits prod.splits)
  from finish_table_result [OF fin] rows show ?thesis by auto
qed

text \<open>C7, amended: in the array that \<open>process_data\<close> returns, every data cell that is empty
  or whose conversion raises \<open>ValueError\<close> is 0. When the separators are accepted and the
  conversion function raises nothing but \<open>ValueError\<close> on the non-empty data cells of the
  input, no conversion failure reaches the caller: the outcome is that of the final check on
  the table whose entries are the converted cells, with 0 for the empty and the failing
  ones. An exception of another class is not caught: when the separators are accepted,
  \<open>process_data\<close> fails with the exception that the conversion raises on the first
  non-empty data cell, in reading order, where it raises another exception than
  \<open>ValueError\<close>.\<close>

theorem conversion_failures_become_zero:
  "(process_data s hl cv ls cs = Inr (matrix, labels) \<longrightarrow>
      (\<forall>i < length (split_sep ls s). \<forall>j < length (row_cells hl cs (split_sep ls s ! i)).
         row_cells hl cs (split_sep ls s ! i) ! j = [] \<or>
         cv (row_cells hl cs (split_sep ls s ! i) ! j) = Inl ValueError \<longrightarrow>
         array_entries matrix ! i ! j = 0)) \<and>
   (ls \<noteq> cs \<longrightarrow> ls \<noteq> [] \<longrightarrow> cs \<noteq> [] \<longrightarrow>
      (\<forall>r \<in> set (split_sep ls s). \<forall>c \<in> set (row_cells hl cs r).
         c \<noteq> [] \<longrightarrow> (\<forall>e. cv c = Inl e \<longrightarrow> e = ValueError)) \<longrightarrow>
      process_data s hl cv ls cs =
        finish_table (map (\<lambda>r. map (cell_or_zero cv) (row_cells hl cs r)) (split_sep ls s))
          (map (\<lambda>r. row_label hl (split_sep cs r)) (split_sep ls s))) \<and>
   (ls \<noteq> cs \<longrightarrow> ls \<noteq> [] \<longrightarrow> cs \<noteq> [] \<longrightarrow>
      (\<forall>c. find (uncaught cv) (concat (map (row_cells hl cs) (split_sep ls s))) = Some c \<longrightarrow>
         (\<exists>e. cv c = Inl e \<and> e \<noteq> ValueError \<and> process_data s hl cv ls cs = Inl e)))"
proof (intro conjI impI allI)
  fix i j
  assume res: "process_data s hl cv ls cs = Inr (matrix, labels)"
    and i: "i < length (split_sep ls s)"
    and j: "j < length (row_cells hl cs (split_sep ls s ! i))"
    and bad: "row_cells hl cs (split_sep ls s ! i) ! j = [] \<or>
         cv (row_cells hl cs (split_sep ls s ! i) ! j) = Inl ValueError"
  from process_data_result [OF res] obtain table where
    rows: "process_rows hl cv cs (split_sep ls s) = Inr (table, labels)"
    and arr: "np_array table = Inr matrix"
    by blast
  from process_rows_result [OF rows] i
  have len: "length table = length (split_sep ls s)"
    and row: "process_row hl cv cs (split_sep ls s ! i) = Inr (table ! i, labels ! i)"
    by simp_all
  have cells: "convert_cells cv (row_cells hl cs (split_sep ls s ! i)) = Inr (table ! i)"
    by (rule process_row_result [OF row])
  have "table ! i ! j = 0"
    using convert_cells_nth [OF cells j] bad by (rule cell_value_zero)
  moreover have "i < length table"
    using i len by simp
  moreover have "j < length (table ! i)"
    using j convert_cells_length [OF cells] by simp
  ultimately show "array_entries matrix ! i ! j = 0"
    using arr by (intro np_array_zero_entry)
next
  assume sep: "ls \<noteq> cs" "ls \<noteq> []" "cs \<noteq> []"
    and "\<forall>r \<in> set (split_sep ls s). \<forall>c \<in> set (row_cells hl cs r).
         c \<noteq> [] \<longrightarrow> (\<forall>e. cv c = Inl e \<longrightarrow> e = ValueError)"
  then have "\<forall>r \<in> set (split_sep ls s). \<forall>c \<in> set (row_cells hl cs r). \<not> uncaught cv c"
    by (auto simp: uncaught_def split: sum.splits)
  with sep show "process_data s hl cv ls cs =
        finish_table (map (\<lambda>r. map (cell_or_zero cv) (row_cells hl cs r)) (split_sep ls s))
          (map (\<lambda>r. row_label hl (split_sep cs r)) (split_sep ls s))"
    by (simp add: process_data_def py_split_def process_rows_total)
next
  fix c
  assume sep: "ls \<noteq> cs" "ls \<noteq> []" "cs \<noteq> []"
    and found: "find (uncaught cv) (concat (map (row_cells hl cs) (split_sep ls s))) = Some c"
  from process_rows_uncaught [OF sep(3) found] sep
  show "\<exists>e. cv c = Inl e \<and> e \<noteq> ValueError \<and> process_data s hl cv ls cs = Inl e"
    by (auto simp: process_data_def py_split_def)
qed


theorem conversion_failures_become_zero_witness:
  "process_data (''A'' @ [TAB] @ ''x'' @ [TAB] @ [NL] @ ''B'' @ [TAB] @ ''3'' @ [TAB] @ ''4'') True py_int [NL] [TAB]
     = Inr (Int64Array [[0, 0], [3, 4]], [''A'', ''B'']) \<and>
   row_cells True [TAB] (split_sep [NL] (''A'' @ [TAB] @ ''x'' @ [TAB] @ [NL] @ ''B'' @ [TAB] @ ''3'' @ [TAB] @ ''4'') ! 0)
     = [''x'', []] \<and>
   py_int ''x'' = Inl ValueError \<and>
   array_entries (Int64Array [[0, 0], [3, 4]]) ! 0 ! 0 = 0 \<and>
   array_entries (Int64Array [[0, 0], [3, 4]]) ! 0 ! 1 = 0 \<and>
   find (uncaught dict_convert)
     (concat (map (row_cells True [TAB])
        (split_sep [NL] (''A'' @ [TAB] @ ''a'' @ [TAB] @ ''x'' @ [NL] @ ''B'' @ [TAB] @ ''y'' @ [TAB] @ ''a''))))
     = Some ''x'' \<and>
   process_data (''A'' @ [TAB] @ ''a'' @ [TAB] @ ''x'' @ [NL] @ ''B'' @ [TAB] @ ''y'' @ [TAB] @ ''a'')
     True dict_convert [NL] [TAB] = Inl (OtherException ''KeyError'')"
proof -
  let ?s = "''A'' @ [TAB] @ ''x'' @ [TAB] @ [NL] @ ''B'' @ [TAB] @ ''3'' @ [TAB] @ ''4''"
  let ?t = "''A'' @ [TAB] @ ''a'' @ [TAB] @ ''x'' @ [NL] @ ''B'' @ [TAB] @ ''y'' @ [TAB] @ ''a''"
  have r: "process_data ?s True py_int [NL] [TAB] = Inr (Int64Array [[0, 0], [3, 4]], [''A'', ''B''])"
    by code_simp
  have rows: "split_sep [NL] ?s = [''A'' @ [TAB] @ ''x'' @ [TAB], ''B'' @ [TAB] @ ''3'' @ [TAB] @ ''4'']"
    by code_simp
  have cells: "row_cells True [TAB] (''A'' @ [TAB] @ ''x'' @ [TAB]) = [''x'', []]"
    by code_simp
  have x: "py_int ''x'' = Inl ValueError"
    by code_simp
  have zero: "array_entries (Int64Array [[0, 0], [3, 4]]) ! 0 ! 0 = 0 \<and>
      array_entries (Int64Array [[0, 0], [3, 4]]) ! 0 ! 1 = 0"
    using conversion_failures_become_zero
      [of ?s True py_int "[NL]" "[TAB]" "Int64Array [[0, 0], [3, 4]]" "[''A'', ''B'']"] r rows cells x
    by simp
  have found: "find (uncaught dict_convert)
      (concat (map (row_cells True [TAB]) (split_sep [NL] ?t))) = Some ''x''"
    by code_simp
  have dx: "dict_convert ''x'' = Inl (OtherException ''KeyError'')"
    by code_simp
  have "\<exists>e. dict_convert ''x'' = Inl e \<and> e \<noteq> ValueError \<and>
      process_data ?t True dict_convert [NL] [TAB] = Inl e"
    using conversion_failures_become_zero [of ?t True dict_convert "[NL]" "[TAB]"] found
    by simp
  with dx have raised: "process_data ?t True dict_convert [NL] [TAB] = Inl (OtherException ''KeyError'')"
    by auto
  from r rows cells x zero found raised show ?thesis
    by simp
qed

text \<open>C7 as stated fails for a conversion function that raises another exception than
  \<open>ValueError\<close>: \<open>except ValueError\<close> does not catch it, and it reaches the caller.\<close>

theorem conversion_failure_counterexample:
  "dict_convert ''x'' = Inl (OtherException ''KeyError'') \<and>
   process_data (''A'' @ [TAB] @ ''x'') True dict_convert [NL] [TAB] = Inl (OtherException ''KeyError'')"
  by code_simp

subsection \<open>\<open>process_data\<close>: the check of the table's shape\<close>

text \<open>The check of lines 69-72 accepts a table only when no row is shorter than the number
  of rows, and it reports the first row that is.\<close>

lemma finish_table_square_check:
  assumes "finish_table table labels = Inr (matrix, labels')"
  shows "\<forall>row \<in> set table. length table \<le> length row"
proof -
  from assms have "find (\<lambda>i. \<not> length table \<le> length (table ! i)) [0..<length table] = None"
    by (auto simp: finish_table_def Let_def split: option.splits)
  then have "\<forall>i < length table. length table \<le> length (table ! i)"
    by (simp add: find_None_iff)
  then show ?thesis
    by (auto simp: in_set_conv_nth)
qed

lemma finish_table_short_row:
  assumes "i < length table" and "length (table ! i) < length table"
  shows "\<exists>k \<le> i. length (table ! k) < length table \<and>
           finish_table table labels =
             Inl (AssertionError (table_message (length table) k (length (table ! k))))"
proof -
  let ?P = "\<lambda>i. \<not> length table \<le> length (table ! i)"
  from assms have "\<exists>x \<in> set [0..<length table]. ?P x"
    by (intro bexI [of _ i]) simp_all
  then obtain k where k: "find ?P [0..<length table] = Some k"
    by (cases "find ?P [0..<length table]") (auto simp: find_None_iff)
  then obtain a where a: "a < length [0..<length table]" "?P ([0..<length table] ! a)"
    "k = [0..<length table] ! a" "\<forall>b < a. \<not> ?P ([0..<length table] ! b)"
    unfolding find_Some_iff by blast
  then have ka: "k = a" "k < length table" by simp_all
  have "k \<le> i"
  proof (rule ccontr)
    assume "\<not> k \<le> i"
    then have "i < a" using ka by simp
    with a(4) have "\<not> ?P ([0..<length table] ! i)" by blast
    with assms show False by simp
  qed
  moreover have "length (table ! k) < length table"
    using a(2) ka a(1) by simp
  moreover have "finish_table table labels =
      Inl (AssertionError (table_message (length table) k (length (table ! k))))"
    using k by (simp add: finish_table_def Let_def)
  ultimately show ?thesis by blast
qed

text \<open>C1 says that \<open>process_data\<close> either fails with the assertion on the table or returns
  a square matrix. The assertion compares with \<open>size <= len(table[i])\<close>, so rows that are
  longer than the number of rows pass it, although its message asks for a table of
  \<open>size\<close> by \<open>size\<close>: on two rows of three data cells the result is an array of shape
  \<open>(2, 3)\<close>.\<close>

theorem wide_table_accepted:
  "process_data
     (''A'' @ [TAB] @ ''1'' @ [TAB] @ ''2'' @ [TAB] @ ''3'' @ [NL] @
      ''B'' @ [TAB] @ ''4'' @ [TAB] @ ''5'' @ [TAB] @ ''6'') True py_int [NL] [TAB]
     = Inr (Int64Array [[1, 2, 3], [4, 5, 6]], [''A'', ''B'']) \<and>
   shape0 [[1, 2, 3], [4, 5, 6 :: int]] = 2 \<and> shape1 [[1, 2, 3], [4, 5, 6 :: int]] = 3"
  by code_simp

text \<open>What the check does guarantee: when the separators are accepted and no
  conversion raises another exception than \<open>ValueError\<close>, a row with fewer data cells than
  there are rows makes \<open>process_data\<close> fail with the assertion on the table, whose message
  names the first such row and the number of its data cells.\<close>

lemma process_data_short_row_fails:
  assumes "ls \<noteq> cs" and "ls \<noteq> []" and "cs \<noteq> []"
    and "\<forall>r \<in> set (split_sep ls s). \<forall>c \<in> set (row_cells hl cs r).
           c \<noteq> [] \<longrightarrow> (\<forall>e. cv c = Inl e \<longrightarrow> e = ValueError)"
    and "i < length (split_sep ls s)"
    and "length (row_cells hl cs (split_sep ls s ! i)) < length (split_sep ls s)"
  shows "\<exists>k \<le> i. length (row_cells hl cs (split_sep ls s ! k)) < length (split_sep ls s) \<and>
           process_data s hl cv ls cs =
             Inl (AssertionError (table_message (length (split_sep ls s)) k
               (length (row_cells hl cs (split_sep ls s ! k)))))"
proof -
  let ?rows = "split_sep ls s"
  let ?table = "map (\<lambda>r. map (cell_or_zero cv) (row_cells hl cs r)) ?rows"
  let ?labels = "map (\<lambda>r. row_label hl (split_sep cs r)) ?rows"
  have "\<forall>r \<in> set ?rows. \<forall>c \<in> set (row_cells hl cs r). \<not> uncaught cv c"
    using assms(4) by (auto simp: uncaught_def split: sum.splits)
  then have pd: "process_data s hl cv ls cs = finish_table ?table ?labels"
    using assms(1-3) by (simp add: process_data_def py_split_def process_rows_total)
  have "i < length ?table" "length (?table ! i) < length ?table"
    using assms(5,6) by simp_all
  from finish_table_short_row [OF this, of ?labels]
  obtain k where k: "k \<le> i" "length (?table ! k) < length ?table"
    "finish_table ?table ?labels =
       Inl (AssertionError (table_message (length ?table) k (length (?table ! k))))"
    by blast
  from k(1) assms(5) have "k < length ?rows" by simp
  with k pd show ?thesis
    by (intro exI [of _ k]) simp
qed

subsection \<open>\<open>process_data\<close>: parsing a serialised table\<close>

lemma occurs_in_short: "length s < length sep \<Longrightarrow> \<not> occurs_in sep s"
  by (induction s) (auto dest: prefix_length_le)

lemma split_sep_single:
  assumes "sep \<noteq> []" and "\<not> occurs_in sep a"
  shows "split_sep sep a = [a]"
  using assms(2)
proof (induction a)
  case Nil
  show ?case by (subst split_sep.simps) simp
next
  case (Cons x a)
  then show ?case
    by (subst split_sep.simps) simp
qed

lemma split_sep_append:
  assumes "sep \<noteq> []" and "\<not> occurs_in sep (a @ butlast sep)"
  shows "split_sep sep (a @ sep @ rest) = a # split_sep sep rest"
  using assms(2)
proof (induction a)
  case Nil
  show ?case
    using assms(1) by (subst split_sep.simps) simp
next
  case (Cons x a)
  have "\<not> prefix sep ((x # a) @ sep @ rest)"
  proof
    assume p: "prefix sep ((x # a) @ sep @ rest)"
    have "prefix ((x # a) @ butlast sep) ((x # a) @ sep @ rest)"
      using assms(1) by (simp add: prefix_def) (metis append_butlast_last_id append_assoc)
    moreover have "length sep \<le> length ((x # a) @ butlast sep)"
      by simp
    ultimately have "prefix sep ((x # a) @ butlast sep)"
      using p by (metis prefix_length_prefix)
    with Cons.prems show False by simp
  qed
  moreover from Cons have "split_sep sep (a @ sep @ rest) = a # split_sep sep rest"
    by simp
  ultimately show ?case
    by (subst split_sep.simps) simp
qed

lemma split_sep_join:
  "sep \<noteq> [] \<Longrightarrow> splits_back sep xs \<Longrightarrow> split_sep sep (py_join sep xs) = xs"
proof (induction sep xs rule: py_join.induct)
  case (1 sep)
  then show ?case by (simp add: splits_back_def)
next
  case (2 sep x)
  then show ?case by (simp add: splits_back_def split_sep_single)
next
  case (3 sep x y ys)
  then have "splits_back sep (y # ys)" and "\<not> occurs_in sep (x @ butlast sep)"
    by (simp_all add: splits_back_def)
  with 3 show ?case by (simp add: split_sep_append)
qed

lemma first_char_not_occurs:
  assumes "sep \<noteq> []" and "hd sep \<notin> set x"
  shows "\<not> occurs_in sep (x @ butlast sep)"
  using assms(2)
proof (induction x)
  case Nil
  show ?case using assms(1) by (simp add: occurs_in_short)
next
  case (Cons c x)
  then have "\<not> prefix sep ((c # x) @ butlast sep)"
    using assms(1) by (cases sep) auto
  with Cons show ?case by simp
qed

lemma first_char_not_occurs_last:
  assumes "sep \<noteq> []" and "hd sep \<notin> set x"
  shows "\<not> occurs_in sep x"
  using assms(2)
proof (induction x)
  case Nil
  show ?case using assms(1) by simp
next
  case (Cons c x)
  then have "\<not> prefix sep (c # x)"
    using assms(1) by (cases sep) auto
  with Cons show ?case by simp
qed

text \<open>A plain sufficient condition: the first character of the separator is in no piece.\<close>

lemma first_char_splits_back:
  assumes "sep \<noteq> []" and "xs \<noteq> []" and "\<forall>x \<in> set xs. hd sep \<notin> set x"
  shows "splits_back sep xs"
  unfolding splits_back_def
proof (intro conjI ballI)
  show "xs \<noteq> []" by (rule assms(2))
next
  fix x assume "x \<in> set (butlast xs)"
  then have "x \<in> set xs" by (rule in_set_butlastD)
  with assms(3) have "hd sep \<notin> set x" by simp
  then show "\<not> occurs_in sep (x @ butlast sep)"
    by (rule first_char_not_occurs [OF assms(1)])
next
  have "last xs \<in> set xs" using assms(2) by simp
  with assms(3) have "hd sep \<notin> set (last xs)" by simp
  then show "\<not> occurs_in sep (last xs)"
    by (rule first_char_not_occurs_last [OF assms(1)])
qed

lemma set_py_join: "set (py_join sep xs) \<subseteq> set sep \<union> \<Union> (set ` set xs)"
  by (induction sep xs rule: py_join.induct) auto

lemma digit_char_is_digit: "d < 10 \<Longrightarrow> is_digit (digit_char d)"
  by (simp add: is_digit_def digit_char_def)

lemma digit_val_digit_char: "d < 10 \<Longrightarrow> digit_val (digit_char d) = d"
  by (simp add: digit_val_def digit_char_def)

lemma show_nat_digits: "\<forall>c \<in> set (show_nat n). is_digit c"
proof (induction n rule: show_nat.induct)
  case (1 n)
  then show ?case
    by (subst show_nat.simps) (auto simp: digit_char_is_digit)
qed

lemma show_nat_not_Nil: "show_nat n \<noteq> []"
  by (subst show_nat.simps) simp

lemma length_show_nat: "n < 10 ^ k \<Longrightarrow> 0 < k \<Longrightarrow> length (show_nat n) \<le> k"
proof (induction n arbitrary: k rule: show_nat.induct)
  case (1 n)
  show ?case
  proof (cases "n < 10")
    case True
    with 1(3) show ?thesis
      by (subst show_nat.simps) simp
  next
    case False
    obtain j where k: "k = Suc j" using 1(3) by (cases k) auto
    with False 1(2) have j: "0 < j" by (cases j) auto
    from 1(2) k have "n div 10 < 10 ^ j"
      by (simp add: less_mult_imp_div_less mult.commute)
    from 1(1) [OF False this j] False k show ?thesis
      by (subst show_nat.simps) simp
  qed
qed

lemma parse_digits_all_digits:
  "\<forall>c \<in> set ds. is_digit c \<Longrightarrow> parse_digits acc ds = Some (digits_value acc ds)"
  by (induction acc ds rule: parse_digits.induct) (simp_all add: digits_value_def)

lemma digits_value_show_nat: "digits_value 0 (show_nat n) = n"
proof (induction n rule: show_nat.induct)
  case (1 n)
  show ?case
  proof (cases "n < 10")
    case True
    then show ?thesis
      by (subst show_nat.simps) (simp add: digits_value_def digit_val_digit_char)
  next
    case False
    with 1 have "digits_value 0 (show_nat (n div 10)) = n div 10" by simp
    with False show ?thesis
      by (subst show_nat.simps) (simp add: digits_value_def digit_val_digit_char)
  qed
qed

lemma unsigned_literal_show_nat:
  assumes "length (show_nat n) \<le> int_max_str_digits"
  shows "unsigned_literal (show_nat n) = Some n"
proof (cases "show_nat n")
  case Nil
  with show_nat_not_Nil show ?thesis by simp
next
  case (Cons d ds)
  with show_nat_digits [of n] have d: "is_digit d" and ds: "\<forall>c \<in> set ds. is_digit c"
    by simp_all
  then have "filter is_digit (d # ds) = d # ds"
    by simp
  with assms Cons have lim: "\<not> int_max_str_digits < length (filter is_digit (d # ds))"
    by simp
  have "digits_value 0 (d # ds) = digits_value (digit_val d) ds"
    by (simp add: digits_value_def)
  with digits_value_show_nat [of n] Cons have "digits_value (digit_val d) ds = n"
    by simp
  with Cons d ds lim show ?thesis
    by (simp add: unsigned_literal_def parse_digits_all_digits del: filter.simps)
qed

text \<open>A numeral of more digits than the interpreter's bound is refused.\<close>

lemma unsigned_literal_too_long:
  assumes "int_max_str_digits < length (show_nat n)"
  shows "unsigned_literal (show_nat n) = None"
proof -
  have "filter is_digit (show_nat n) = show_nat n"
    using show_nat_digits [of n] by (simp add: filter_id_conv)
  with assms have "int_max_str_digits < length (filter is_digit (show_nat n))"
    by simp
  then show ?thesis
    by (cases "show_nat n") (simp_all add: unsigned_literal_def del: filter.simps)
qed

lemma is_digit_not_int_space: "is_digit c \<Longrightarrow> \<not> is_int_space c"
  by (auto simp: is_digit_def is_int_space_def)

lemma int_strip_id:
  assumes "s \<noteq> []" and "\<not> is_int_space (hd s)" and "\<not> is_int_space (last s)"
  shows "int_strip s = s"
proof -
  from assms(1,2) have "dropWhile is_int_space s = s"
    by (cases s) simp_all
  moreover from assms(1,3) have "dropWhile is_int_space (rev s) = rev s"
    by (cases "rev s") (simp_all add: last_rev [symmetric] del: last_rev)
  ultimately show ?thesis
    by (simp add: int_strip_def)
qed

lemma show_int_not_Nil: "show_int v \<noteq> []"
  by (simp add: show_int_def show_nat_not_Nil)

lemma show_int_chars: "c \<in> set (show_int v) \<Longrightarrow> is_digit c \<or> c = CHR ''-''"
  using show_nat_digits by (auto simp: show_int_def split: if_splits)

lemma minus_not_digit: "\<not> is_digit CHR ''-''" "\<not> is_digit CHR ''+''" "\<not> is_int_space CHR ''-''"
  by (simp_all add: is_digit_def is_int_space_def)

lemma last_show_nat_digit: "is_digit (last (show_nat n))"
  using show_nat_digits [of n] show_nat_not_Nil [of n] last_in_set by blast

lemma hd_show_nat_digit: "is_digit (hd (show_nat n))"
  using show_nat_digits [of n] show_nat_not_Nil [of n] hd_in_set by blast

lemma int_strip_show_int: "int_strip (show_int v) = show_int v"
proof (rule int_strip_id)
  show "show_int v \<noteq> []" by (rule show_int_not_Nil)
  show "\<not> is_int_space (hd (show_int v))"
    using hd_show_nat_digit by (auto simp: show_int_def minus_not_digit is_digit_not_int_space)
  show "\<not> is_int_space (last (show_int v))"
    using last_show_nat_digit by (auto simp: show_int_def show_nat_not_Nil is_digit_not_int_space)
qed

lemma py_int_show_int:
  assumes "length (show_nat (nat \<bar>v\<bar>)) \<le> int_max_str_digits"
  shows "py_int (show_int v) = Inr v"
proof (cases "v < 0")
  case True
  then have "show_int v = CHR ''-'' # show_nat (nat (- v))"
    by (simp add: show_int_def)
  moreover from True assms have "unsigned_literal (show_nat (nat (- v))) = Some (nat (- v))"
    by (intro unsigned_literal_show_nat) simp
  ultimately show ?thesis
    using True int_strip_show_int [of v] by (simp add: py_int_def)
next
  case False
  obtain d ds where ds: "show_nat (nat v) = d # ds"
    using show_nat_not_Nil [of "nat v"] by (cases "show_nat (nat v)") auto
  with hd_show_nat_digit [of "nat v"] have "is_digit d" by simp
  then have d: "d \<noteq> CHR ''-''" "d \<noteq> CHR ''+''"
    using minus_not_digit by auto
  from False ds have "show_int v = d # ds"
    by (simp add: show_int_def)
  moreover from False assms have "unsigned_literal (show_nat (nat v)) = Some (nat v)"
    by (intro unsigned_literal_show_nat) simp
  ultimately show ?thesis
    using int_strip_show_int [of v] d False ds by (simp add: py_int_def)
qed

lemma int64_digits:
  assumes "in_int64 v \<or> in_uint64 v"
  shows "length (show_nat (nat \<bar>v\<bar>)) \<le> int_max_str_digits"
proof -
  from assms have "\<bar>v\<bar> < 2 ^ 64"
    by (auto simp: in_int64_def in_uint64_def)
  then have "nat \<bar>v\<bar> < 2 ^ 64"
    by (simp add: nat_less_iff)
  also have "(2::nat) ^ 64 < 10 ^ 20"
    by simp
  finally have "length (show_nat (nat \<bar>v\<bar>)) \<le> 20"
    by (rule length_show_nat) simp
  then show ?thesis
    by (simp add: int_max_str_digits_def)
qed

lemma cell_value_show_int:
  "length (show_nat (nat \<bar>v\<bar>)) \<le> int_max_str_digits \<Longrightarrow> cell_value py_int (show_int v) = Inr v"
  by (simp add: cell_value_def show_int_not_Nil py_int_show_int)

lemma convert_cells_show_int:
  "\<forall>v \<in> set row. length (show_nat (nat \<bar>v\<bar>)) \<le> int_max_str_digits \<Longrightarrow>
   convert_cells py_int (map show_int row) = Inr row"
  by (induction row) (simp_all add: cell_value_show_int)

lemma process_row_serialized:
  assumes "cs \<noteq> []" and "splits_back cs (label # map show_int row)"
    and "strip label = label"
    and "\<forall>v \<in> set row. length (show_nat (nat \<bar>v\<bar>)) \<le> int_max_str_digits"
  shows "process_row True py_int cs (spec_serialize_row cs label row) = Inr (row, label)"
proof -
  have "split_sep cs (spec_serialize_row cs label row) = label # map show_int row"
    using assms(1,2) by (simp add: spec_serialize_row_def split_sep_join)
  with assms(1,3) convert_cells_show_int [OF assms(4)] show ?thesis
    by (simp add: process_row_def py_split_def take_label_def)
qed

lemma process_rows_serialized:
  assumes "cs \<noteq> []"
  shows "length labels = length m \<Longrightarrow>
         \<forall>(l, row) \<in> set (zip labels m).
            splits_back cs (l # map show_int row) \<and> strip l = l \<and>
            (\<forall>v \<in> set row. length (show_nat (nat \<bar>v\<bar>)) \<le> int_max_str_digits) \<Longrightarrow>
         process_rows True py_int cs (map2 (spec_serialize_row cs) labels m) = Inr (m, labels)"
proof (induction labels m rule: list_induct2)
  case Nil
  show ?case by simp
next
  case (Cons l labels row m)
  then show ?case
    by (simp add: process_row_serialized [OF assms])
qed

text \<open>Parsing a serialised table rebuilds the table and the labels; what remains is the
  final check and the conversion to an array.\<close>

lemma parse_serialized:
  assumes "ls \<noteq> cs" and "ls \<noteq> []" and "cs \<noteq> []" and "length labels = length m"
    and "splits_back ls (map2 (spec_serialize_row cs) labels m)"
    and "\<forall>(l, row) \<in> set (zip labels m). splits_back cs (l # map show_int row)"
    and "\<forall>l \<in> set labels. strip l = l"
    and "\<forall>row \<in> set m. \<forall>v \<in> set row. length (show_nat (nat \<bar>v\<bar>)) \<le> int_max_str_digits"
  shows "process_data (spec_serialize m labels ls cs) True py_int ls cs = finish_table m labels"
proof -
  let ?rows = "map2 (spec_serialize_row cs) labels m"
  have "split_sep ls (spec_serialize m labels ls cs) = ?rows"
    using assms(2,5) by (simp add: spec_serialize_def split_sep_join)
  moreover have "process_rows True py_int cs ?rows = Inr (m, labels)"
  proof (rule process_rows_serialized [OF assms(3,4)])
    show "\<forall>(l, row) \<in> set (zip labels m).
            splits_back cs (l # map show_int row) \<and> strip l = l \<and>
            (\<forall>v \<in> set row. length (show_nat (nat \<bar>v\<bar>)) \<le> int_max_str_digits)"
      using assms(6,7,8) by (auto dest: set_zip_leftD set_zip_rightD)
  qed
  ultimately show ?thesis
    using assms(1,2) by (simp add: process_data_def py_split_def)
qed

lemma finish_table_int64:
  assumes "is_matrix n n m" and "\<forall>row \<in> set m. \<forall>v \<in> set row. in_int64 v" and "0 < n"
  shows "finish_table m labels = Inr (Int64Array m, labels)"
proof -
  from assms(1) have len: "length m = n" "\<forall>row \<in> set m. length row = n"
    by (simp_all add: is_matrix_def)
  with assms(3) have entries: "concat m \<noteq> []"
    by (cases m) auto
  from len have "find (\<lambda>i. \<not> length m \<le> length (m ! i)) [0..<length m] = None"
    by (simp add: find_None_iff)
  moreover have "\<forall>row \<in> set m. length row = length (hd m)"
    using len by (cases m) simp_all
  then have "np_array m = Inr (Int64Array m)"
    using assms(2) entries by (simp add: np_array_def)
  ultimately show ?thesis
    by (simp add: finish_table_def)
qed

text \<open>C3, amended: let \<open>m\<close> be a square matrix of dimension \<open>n \<ge> 1\<close> whose entries are
  integers of the range of \<open>int64\<close>, and \<open>labels\<close> a list of \<open>n\<close> labels, none of which begins
  or ends with whitespace; let the separators be distinct, non-empty, and occur in the
  serialised text only where the serialisation puts them: the column separator occurs in
  no cell of a row (its label, the numeral of an entry) extended by the separator without
  its last character, nor in the last cell of a row, and the line separator likewise occurs
  in no serialised row so extended, nor in the last row. Then serialising \<open>m\<close> and \<open>labels\<close>
  and parsing the text with \<open>process_data\<close> (labels enabled, the default conversion \<open>int\<close>)
  yields exactly \<open>m\<close>, as an array of \<open>int64\<close>, and exactly \<open>labels\<close>.\<close>

theorem parse_round_trip:
  assumes "0 < n" and "is_matrix n n m" and "length labels = n"
    and "\<forall>row \<in> set m. \<forall>v \<in> set row. in_int64 v"
    and "\<forall>l \<in> set labels. strip l = l"
    and "ls \<noteq> cs" and "ls \<noteq> []" and "cs \<noteq> []"
    and "\<forall>(l, row) \<in> set (zip labels m). splits_back cs (l # map show_int row)"
    and "splits_back ls (map2 (spec_serialize_row cs) labels m)"
  shows "process_data (spec_serialize m labels ls cs) True py_int ls cs =
         Inr (Int64Array m, labels)"
proof -
  have len: "length labels = length m"
    using assms(2,3) by (simp add: is_matrix_def)
  have digits: "\<forall>row \<in> set m. \<forall>v \<in> set row. length (show_nat (nat \<bar>v\<bar>)) \<le> int_max_str_digits"
    using assms(4) by (auto intro: int64_digits)
  have "process_data (spec_serialize m labels ls cs) True py_int ls cs = finish_table m labels"
    by (rule parse_serialized [OF assms(6,7,8) len assms(10,9,5) digits])
  then show ?thesis
    by (simp add: finish_table_int64 [OF assms(2,4,1)])
qed

theorem parse_round_trip_witness:
  "spec_serialize [[1, - 2], [30, 4]] [''A'', ''B-''] [NL] ''-|'' = ''A-|1-|-2'' @ [NL] @ ''B--|30-|4'' \<and>
   process_data (''A-|1-|-2'' @ [NL] @ ''B--|30-|4'') True py_int [NL] ''-|'' =
     Inr (Int64Array [[1, - 2], [30, 4]], [''A'', ''B-''])"
proof -
  have s: "spec_serialize [[1, - 2], [30, 4]] [''A'', ''B-''] [NL] ''-|'' =
      ''A-|1-|-2'' @ [NL] @ ''B--|30-|4''"
    by code_simp
  have m: "is_matrix 2 2 [[1, - 2], [30, 4 :: int]]"
    by (simp add: is_matrix_def)
  have r: "\<forall>row \<in> set [[1, - 2], [30, 4 :: int]]. \<forall>v \<in> set row. in_int64 v"
    by (simp add: in_int64_def)
  have l: "\<forall>l \<in> set [''A'', ''B-'']. strip l = l"
    by (simp add: strip_def is_space_def)
  have c: "\<forall>(l, row) \<in> set (zip [''A'', ''B-''] [[1, - 2], [30, 4]]).
      splits_back ''-|'' (l # map show_int row)"
    by code_simp
  have b: "splits_back [NL] (map2 (spec_serialize_row ''-|'') [''A'', ''B-''] [[1, - 2], [30, 4]])"
    by code_simp
  have "process_data (spec_serialize [[1, - 2], [30, 4]] [''A'', ''B-''] [NL] ''-|'') True py_int
      [NL] ''-|'' = Inr (Int64Array [[1, - 2], [30, 4]], [''A'', ''B-''])"
    by (rule parse_round_trip [OF _ m _ r l _ _ _ c b]) simp_all
  with s show ?thesis
    by simp
qed

lemma serialized_row_chars:
  assumes "c \<in> set (spec_serialize_row cs label row)"
  shows "c \<in> set cs \<or> c \<in> set label \<or> is_digit c \<or> c = CHR ''-''"
proof -
  from assms set_py_join [of cs "label # map show_int row"]
  have "c \<in> set cs \<union> \<Union> (set ` set (label # map show_int row))"
    by (auto simp: spec_serialize_row_def)
  then show ?thesis
    using show_int_chars by auto
qed

text \<open>The same with plain conditions on the separators: their first characters are
  neither digits nor the minus sign and occur in no label, and the first character of the
  line separator does not occur in the column separator.\<close>

lemma parse_serialized_plain:
  assumes "m \<noteq> []" and "length labels = length m"
    and "ls \<noteq> []" and "cs \<noteq> []" and "hd ls \<notin> set cs"
    and "\<not> is_digit (hd ls)" and "hd ls \<noteq> CHR ''-''"
    and "\<not> is_digit (hd cs)" and "hd cs \<noteq> CHR ''-''"
    and "\<forall>l \<in> set labels. strip l = l \<and> hd ls \<notin> set l \<and> hd cs \<notin> set l"
    and "\<forall>row \<in> set m. \<forall>v \<in> set row. length (show_nat (nat \<bar>v\<bar>)) \<le> int_max_str_digits"
  shows "process_data (spec_serialize m labels ls cs) True py_int ls cs = finish_table m labels"
proof (rule parse_serialized [OF _ assms(3,4,2) _ _ _ assms(11)])
  show "ls \<noteq> cs"
    using assms(4,5) by (cases cs) auto
next
  let ?rows = "map2 (spec_serialize_row cs) labels m"
  have "?rows \<noteq> []"
    using assms(1,2) by (cases labels; cases m) simp_all
  moreover have "\<forall>r \<in> set ?rows. hd ls \<notin> set r"
  proof
    fix r assume "r \<in> set ?rows"
    then obtain l row where l: "l \<in> set labels" and r: "r = spec_serialize_row cs l row"
      by (auto dest: set_zip_leftD)
    show "hd ls \<notin> set r"
    proof
      assume "hd ls \<in> set r"
      from serialized_row_chars [OF this [unfolded r]] assms(5,6,7,10) l show False
        by auto
    qed
  qed
  ultimately show "splits_back ls ?rows"
    by (intro first_char_splits_back assms(3))
next
  show "\<forall>(l, row) \<in> set (zip labels m). splits_back cs (l # map show_int row)"
  proof (clarify)
    fix l row assume "(l, row) \<in> set (zip labels m)"
    then have "l \<in> set labels" by (rule set_zip_leftD)
    with assms(10) have "hd cs \<notin> set l" by simp
    moreover have "\<forall>v. hd cs \<notin> set (show_int v)"
      using show_int_chars assms(8,9) by blast
    ultimately show "splits_back cs (l # map show_int row)"
      by (intro first_char_splits_back assms(4)) auto
  qed
next
  show "\<forall>l \<in> set labels. strip l = l"
    using assms(10) by simp
qed

lemma bit_length_bounds: "2 ^ k \<le> n \<Longrightarrow> n < 2 ^ Suc k \<Longrightarrow> bit_length n = Suc k"
proof (induction k arbitrary: n)
  case 0
  then have "n = 1" by simp
  then show ?case by (simp add: bit_length.simps)
next
  case (Suc k)
  then have "2 ^ k \<le> n div 2" "n div 2 < 2 ^ Suc k" by auto
  then have "bit_length (n div 2) = Suc k" by (rule Suc.IH)
  moreover from Suc.prems have "n \<noteq> 0" by auto
  ultimately show ?case by (subst bit_length.simps) simp
qed

lemma float64_above_int64: "float64_of_nat (2 ^ 63 + 1) = 2 ^ 63"
proof -
  have "bit_length (2 ^ 63 + 1) = Suc 63"
    by (rule bit_length_bounds) simp_all
  then show ?thesis
    by (simp add: float64_of_nat_def Let_def)
qed

lemma np_array_mixed:
  "np_array [[2 ^ 63 + 1, - 1], [0, 0]] = Inr (Float64Array [[2 ^ 63, - 1], [0, 0]])"
  using float64_above_int64
  by (simp add: np_array_def in_int64_def in_uint64_def float64_of_int_def float64_of_nat_def
      nat_add_distrib nat_power_eq)

lemma parse_mixed:
  "process_data (spec_serialize [[2 ^ 63 + 1, - 1], [0, 0]] [''A'', ''B''] [NL] [TAB]) True py_int
     [NL] [TAB] = Inr (Float64Array [[2 ^ 63, - 1], [0, 0]], [''A'', ''B''])"
proof -
  have d: "\<not> is_digit (hd [NL])" "\<not> is_digit (hd [TAB])"
    by (simp_all add: is_digit_def)
  have l: "\<forall>l \<in> set [''A'', ''B'']. strip l = l \<and> hd [NL] \<notin> set l \<and> hd [TAB] \<notin> set l"
    by (simp add: strip_def is_space_def)
  have "\<forall>row \<in> set [[2 ^ 63 + 1, - 1], [0, 0 :: int]]. \<forall>v \<in> set row. in_int64 v \<or> in_uint64 v"
    by (simp add: in_int64_def in_uint64_def)
  then have v: "\<forall>row \<in> set [[2 ^ 63 + 1, - 1], [0, 0 :: int]]. \<forall>v \<in> set row.
      length (show_nat (nat \<bar>v\<bar>)) \<le> int_max_str_digits"
    using int64_digits by blast
  have "process_data (spec_serialize [[2 ^ 63 + 1, - 1], [0, 0]] [''A'', ''B''] [NL] [TAB]) True
      py_int [NL] [TAB] = finish_table [[2 ^ 63 + 1, - 1], [0, 0]] [''A'', ''B'']"
    by (rule parse_serialized_plain [OF _ _ _ _ _ d(1) _ d(2) _ l v]) simp_all
  also have "\<dots> = Inr (Float64Array [[2 ^ 63, - 1], [0, 0]], [''A'', ''B''])"
    using np_array_mixed by (simp add: finish_table_def upt_rec [of 0] upt_rec [of 1])
  finally show ?thesis .
qed

text \<open>C3 as stated fails: a label that ends with whitespace comes back stripped; a
  separator that is a digit cuts the numerals; the matrix of dimension 0 is serialised to
  the empty text, which parses to one row without data; the empty separator is distinct
  from the other and is refused by \<open>split\<close>; a line separator that occurs in the column
  separator cuts the rows at the column separators; an entry beyond the range of \<open>int64\<close>
  beside a negative one makes \<open>np.array\<close> choose \<open>float64\<close>, which rounds it.\<close>

theorem parse_round_trip_counterexample:
  "process_data (spec_serialize [[1]] [''A ''] [NL] [TAB]) True py_int [NL] [TAB] =
     Inr (Int64Array [[1]], [''A'']) \<and>
   process_data (spec_serialize [[1]] [''A ''] [NL] [TAB]) True py_int [NL] [TAB] \<noteq>
     Inr (Int64Array [[1]], [''A '']) \<and>
   process_data (spec_serialize [[1]] [''A''] ''1'' [TAB]) True py_int ''1'' [TAB] =
     Inl (AssertionError ''The data must be a table of 2x2. The line 0 has only 1 columns.'') \<and>
   process_data (spec_serialize [] [] [NL] [TAB]) True py_int [NL] [TAB] =
     Inl (AssertionError ''The data must be a table of 1x1. The line 0 has only 0 columns.'') \<and>
   process_data (spec_serialize [[1]] [''A''] [] [TAB]) True py_int [] [TAB] = Inl ValueError \<and>
   process_data (spec_serialize [[1]] [''A''] [TAB] [TAB, TAB]) True py_int [TAB] [TAB, TAB] =
     Inl (AssertionError ''The data must be a table of 3x3. The line 0 has only 0 columns.'') \<and>
   process_data (spec_serialize [[2 ^ 63 + 1, - 1], [0, 0]] [''A'', ''B''] [NL] [TAB]) True py_int
     [NL] [TAB] = Inr (Float64Array [[2 ^ 63, - 1], [0, 0]], [''A'', ''B''])"
proof -
  have "process_data (spec_serialize [[1]] [''A ''] [NL] [TAB]) True py_int [NL] [TAB] =
     Inr (Int64Array [[1]], [''A'']) \<and>
   process_data (spec_serialize [[1]] [''A ''] [NL] [TAB]) True py_int [NL] [TAB] \<noteq>
     Inr (Int64Array [[1]], [''A '']) \<and>
   process_data (spec_serialize [[1]] [''A''] ''1'' [TAB]) True py_int ''1'' [TAB] =
     Inl (AssertionError ''The data must be a table of 2x2. The line 0 has only 1 columns.'') \<and>
   process_data (spec_serialize [] [] [NL] [TAB]) True py_int [NL] [TAB] =
     Inl (AssertionError ''The data must be a table of 1x1. The line 0 has only 0 columns.'') \<and>
   process_data (spec_serialize [[1]] [''A''] [] [TAB]) True py_int [] [TAB] = Inl ValueError \<and>
   process_data (spec_serialize [[1]] [''A''] [TAB] [TAB, TAB]) True py_int [TAB] [TAB, TAB] =
     Inl (AssertionError ''The data must be a table of 3x3. The line 0 has only 0 columns.'')"
    by code_simp
  with parse_mixed show ?thesis
    by simp
qed

end
